theory Spec2Isabelle
  imports Complex_Main "HOL-Library.Stream" "HOL-Library.AList"
begin

section \<open>Monte Carlo race simulation: the model of race.py\<close>

text \<open>
  The Python floats of the program are modelled as real numbers, first in exact
  arithmetic and then, for what depends on rounding, with every operation rounded to a
  double; \<^verbatim>\<open>nan\<close> as \<open>None\<close> of \<open>real option\<close>, Python integers as \<open>int\<close>.
  Exceptions are values of \<open>error\<close>; a function that can raise returns \<open>error + 'a\<close>.
  Printing (\<^verbatim>\<open>verbose\<close>, \<^verbatim>\<open>progress_every\<close>) has no effect on any result and is left out.
\<close>

datatype error = ValueError | ZeroDivisionError | KeyError | IndexError

subsection \<open>Data classes\<close>

record Car =
  name :: string
  base_speed :: real
  speed_std :: real
  crash_prob :: real
  pit_mean :: real
  pit_std :: real
  pit_laps :: "int list"
  tyre_decay :: real
  boost_laps :: "int list"
  boost_speed :: real
  boost_crash :: real

record Track =
  lap_length :: real
  n_laps :: int
  weather_variance :: real

subsection \<open>The global random generator\<close>

text \<open>
  \<^verbatim>\<open>np.random\<close> is one process-wide generator: every call reads it and advances it.
  Its state is modelled as the stream of the draws still to come. One call takes one
  draw; the draw is read as a uniform sample of [0,1) by \<^verbatim>\<open>np.random.rand()\<close> and as a
  standard normal sample by \<^verbatim>\<open>np.random.normal(loc, scale)\<close>, which returns
  \<open>loc + scale * z\<close> and raises ValueError for a negative scale.
\<close>

record draw =
  uniform01 :: real
  gauss :: real

type_synonym rng = "draw stream"

definition rand :: "rng \<Rightarrow> real \<times> rng" where
  "rand g = (uniform01 (shd g), stl g)"

definition normal :: "real \<Rightarrow> real \<Rightarrow> rng \<Rightarrow> error + (real \<times> rng)" where
  "normal loc scale g =
     (if scale < 0 then Inl ValueError else Inr (loc + scale * gauss (shd g), stl g))"

text \<open>Python's \<^verbatim>\<open>/\<close> on floats raises ZeroDivisionError for a zero divisor.\<close>

definition truediv :: "real \<Rightarrow> real \<Rightarrow> error + real" where
  "truediv a b = (if b = 0 then Inl ZeroDivisionError else Inr (a / b))"

subsection \<open>RaceSimulator: one race\<close>

text \<open>The local variables of the lap loop that live across laps, and the generator.\<close>

record lap_state =
  total_time :: real
  last_pit_lap :: int
  gen :: rng

text \<open>\<^verbatim>\<open>status\<close> is the string "Finished" or f"DNF on lap {lap}".\<close>

datatype status = Finished | DNF int

datatype lap_result = Crashed lap_state | Completed lap_state

definition pit_stop_time :: "Car \<Rightarrow> rng \<Rightarrow> error + (real \<times> rng)" where
  "pit_stop_time car g =
     (case normal (pit_mean car) (pit_std car) g of
        Inl e \<Rightarrow> Inl e
      | Inr (x, g') \<Rightarrow> Inr (max x 0, g'))"

definition lap_crash_prob :: "Car \<Rightarrow> int \<Rightarrow> real" where
  "lap_crash_prob car lap =
     (if lap \<in> set (boost_laps car) then crash_prob car + boost_crash car
      else crash_prob car)"

definition laps_since_pit :: "int \<Rightarrow> lap_state \<Rightarrow> int" where
  "laps_since_pit lap st = lap - last_pit_lap st - 1"

definition tyre_penalty :: "Car \<Rightarrow> int \<Rightarrow> lap_state \<Rightarrow> real" where
  "tyre_penalty car lap st =
     base_speed car * tyre_decay car * of_int (laps_since_pit lap st)"

text \<open>The safety clamp \<^verbatim>\<open>speed = max(speed, 1e-3)\<close>.\<close>

definition clamp_speed :: "real \<Rightarrow> real" where
  "clamp_speed speed = max speed (1 / 1000)"

text \<open>
  The body of \<^verbatim>\<open>for lap in range(1, n_laps + 1)\<close>: the crash draw, then the speed draw,
  the weather draw, the division, and the pit stop at the end of a pit lap.
  \<open>Crashed\<close> is the \<^verbatim>\<open>break\<close>.
\<close>

definition lap_body :: "Track \<Rightarrow> Car \<Rightarrow> int \<Rightarrow> lap_state \<Rightarrow> error + lap_result" where
  "lap_body track car lap st =
     (case rand (gen st) of (u, g1) \<Rightarrow>
        if u < lap_crash_prob car lap then Inr (Crashed (st\<lparr>gen := g1\<rparr>))
        else
          (case normal (base_speed car) (speed_std car) g1 of
             Inl e \<Rightarrow> Inl e
           | Inr (x, g2) \<Rightarrow>
          (case normal 0 (weather_variance track) g2 of
             Inl e \<Rightarrow> Inl e
           | Inr (w, g3) \<Rightarrow>
          (case truediv (lap_length track)
                  (clamp_speed (x - tyre_penalty car lap st
                     + (if lap \<in> set (boost_laps car) then boost_speed car else 0) + w)) of
             Inl e \<Rightarrow> Inl e
           | Inr lap_time \<Rightarrow>
               if lap \<in> set (pit_laps car) then
                 (case pit_stop_time car g3 of
                    Inl e \<Rightarrow> Inl e
                  | Inr (p, g4) \<Rightarrow>
                      Inr (Completed \<lparr>total_time = total_time st + lap_time + p,
                                      last_pit_lap = lap, gen = g4\<rparr>))
               else Inr (Completed \<lparr>total_time = total_time st + lap_time,
                                     last_pit_lap = last_pit_lap st, gen = g3\<rparr>)))))"

text \<open>The lap loop from lap number \<open>lap\<close> on; it returns the status and the final state.\<close>

function lap_loop :: "Track \<Rightarrow> Car \<Rightarrow> int \<Rightarrow> lap_state \<Rightarrow> error + (status \<times> lap_state)" where
  "lap_loop track car lap st =
     (if n_laps track < lap then Inr (Finished, st)
      else (case lap_body track car lap st of
              Inl e \<Rightarrow> Inl e
            | Inr (Crashed st') \<Rightarrow> Inr (DNF lap, st')
            | Inr (Completed st') \<Rightarrow> lap_loop track car (lap + 1) st'))"
  by pat_completeness auto
termination
  by (relation "measure (\<lambda>(track, car, lap, st). nat (n_laps track + 1 - lap))") auto

declare lap_loop.simps [simp del]

record outcome =
  time :: "real option"
  status :: status
  laps :: int

text \<open>
  One iteration of \<^verbatim>\<open>for car in self.cars\<close> up to the entry of the results dict.
  The \<^verbatim>\<open>lap\<close> of a DNF entry is the loop variable at the \<^verbatim>\<open>break\<close>, the number in
  the status string.
\<close>

definition init_state :: "rng \<Rightarrow> lap_state" where
  "init_state g = \<lparr>total_time = 0, last_pit_lap = 0, gen = g\<rparr>"

definition car_result :: "Track \<Rightarrow> Car \<Rightarrow> rng \<Rightarrow> error + (outcome \<times> rng)" where
  "car_result track car g =
     (case lap_loop track car 1 (init_state g) of
        Inl e \<Rightarrow> Inl e
      | Inr (s, st) \<Rightarrow>
          Inr (\<lparr>time = (if s \<noteq> Finished then None else Some (total_time st)),
                status = s,
                laps = (case s of DNF lap \<Rightarrow> lap | Finished \<Rightarrow> n_laps track)\<rparr>,
               gen st))"

text \<open>
  The results dict keeps insertion order and a second assignment to a key replaces the
  value in place: an association list under \<open>AList.update\<close>.
\<close>

fun race_loop :: "Track \<Rightarrow> Car list \<Rightarrow> (string \<times> outcome) list \<Rightarrow> rng
    \<Rightarrow> error + ((string \<times> outcome) list \<times> rng)" where
  "race_loop track [] results g = Inr (results, g)"
| "race_loop track (car # cars) results g =
     (case car_result track car g of
        Inl e \<Rightarrow> Inl e
      | Inr (out, g') \<Rightarrow> race_loop track cars (AList.update (name car) out results) g')"

definition RaceSimulator_run :: "Car list \<Rightarrow> Track \<Rightarrow> rng
    \<Rightarrow> error + ((string \<times> outcome) list \<times> rng)" where
  "RaceSimulator_run cars track g = race_loop track cars [] g"

subsection \<open>MonteCarloRace: many races\<close>

text \<open>The four tracking dicts, keyed by the name of a car.\<close>

record accs =
  winner_counts :: "string \<rightharpoonup> int"
  podium_counts :: "string \<rightharpoonup> int"
  finish_times :: "string \<rightharpoonup> real option list"
  dnfs :: "string \<rightharpoonup> int"

definition init_accs :: "Car list \<Rightarrow> accs" where
  "init_accs cars =
     \<lparr>winner_counts = map_of (map (\<lambda>c. (name c, 0)) cars),
      podium_counts = map_of (map (\<lambda>c. (name c, 0)) cars),
      finish_times = map_of (map (\<lambda>c. (name c, [])) cars),
      dnfs = map_of (map (\<lambda>c. (name c, 0)) cars)\<rparr>"

text \<open>\<^verbatim>\<open>counts[k] += 1\<close>: a missing key raises KeyError.\<close>

definition incr :: "(string \<rightharpoonup> int) \<Rightarrow> string \<Rightarrow> error + (string \<rightharpoonup> int)" where
  "incr m k = (case m k of None \<Rightarrow> Inl KeyError | Some v \<Rightarrow> Inr (m(k \<mapsto> v + 1)))"

fun incr_all :: "(string \<rightharpoonup> int) \<Rightarrow> string list \<Rightarrow> error + (string \<rightharpoonup> int)" where
  "incr_all m [] = Inr m"
| "incr_all m (k # ks) =
     (case incr m k of Inl e \<Rightarrow> Inl e | Inr m' \<Rightarrow> incr_all m' ks)"

text \<open>
  The sort key \<^verbatim>\<open>kv[1]["time"]\<close>. Only finished entries are sorted, and their time
  is a number; the value given here for \<^verbatim>\<open>nan\<close> is never compared.
\<close>

definition time_key :: "string \<times> outcome \<Rightarrow> real" where
  "time_key kv = (case time (snd kv) of Some t \<Rightarrow> t | None \<Rightarrow> 0)"

text \<open>
  Win and podium stats of one trial. \<^verbatim>\<open>sorted\<close> is stable, as \<open>sort_key\<close> is;
  \<^verbatim>\<open>order[0]\<close> raises IndexError on an empty list.
\<close>

definition win_podium :: "(string \<times> outcome) list \<Rightarrow> (string \<rightharpoonup> int) \<Rightarrow> (string \<rightharpoonup> int)
    \<Rightarrow> error + ((string \<rightharpoonup> int) \<times> (string \<rightharpoonup> int))" where
  "win_podium finished wc pc =
     (case sort_key time_key finished of
        [] \<Rightarrow> Inl IndexError
      | first # rest \<Rightarrow>
          (case incr wc (fst first) of
             Inl e \<Rightarrow> Inl e
           | Inr wc' \<Rightarrow>
               (case incr_all pc (map fst (take 3 (first # rest))) of
                  Inl e \<Rightarrow> Inl e
                | Inr pc' \<Rightarrow> Inr (wc', pc'))))"

text \<open>Time and DNF stats of one trial: the loop over \<^verbatim>\<open>res.items()\<close>.\<close>

fun tally :: "(string \<times> outcome) list \<Rightarrow> (string \<rightharpoonup> real option list) \<Rightarrow> (string \<rightharpoonup> int)
    \<Rightarrow> error + ((string \<rightharpoonup> real option list) \<times> (string \<rightharpoonup> int))" where
  "tally [] ft dn = Inr (ft, dn)"
| "tally ((n, d) # res) ft dn =
     (if status d = Finished then
        (case ft n of
           None \<Rightarrow> Inl KeyError
         | Some ts \<Rightarrow> tally res (ft(n \<mapsto> ts @ [time d])) dn)
      else
        (case incr dn n of Inl e \<Rightarrow> Inl e | Inr dn' \<Rightarrow> tally res ft dn'))"

text \<open>The body of \<^verbatim>\<open>for i in range(1, n_iter + 1)\<close>.\<close>

definition trial :: "Car list \<Rightarrow> Track \<Rightarrow> accs \<Rightarrow> rng \<Rightarrow> error + (accs \<times> rng)" where
  "trial cars track acc g =
     (case RaceSimulator_run cars track g of
        Inl e \<Rightarrow> Inl e
      | Inr (res, g') \<Rightarrow>
          (case (if filter (\<lambda>(n, d). status d = Finished) res \<noteq> []
                 then win_podium (filter (\<lambda>(n, d). status d = Finished) res)
                        (winner_counts acc) (podium_counts acc)
                 else Inr (winner_counts acc, podium_counts acc)) of
             Inl e \<Rightarrow> Inl e
           | Inr (wc, pc) \<Rightarrow>
               (case tally res (finish_times acc) (dnfs acc) of
                  Inl e \<Rightarrow> Inl e
                | Inr (ft, dn) \<Rightarrow>
                    Inr (\<lparr>winner_counts = wc, podium_counts = pc,
                          finish_times = ft, dnfs = dn\<rparr>, g'))))"

function mc_loop :: "Car list \<Rightarrow> Track \<Rightarrow> int \<Rightarrow> int \<Rightarrow> accs \<Rightarrow> rng \<Rightarrow> error + (accs \<times> rng)" where
  "mc_loop cars track i n_iter acc g =
     (if n_iter < i then Inr (acc, g)
      else (case trial cars track acc g of
              Inl e \<Rightarrow> Inl e
            | Inr (acc', g') \<Rightarrow> mc_loop cars track (i + 1) n_iter acc' g'))"
  by pat_completeness auto
termination
  by (relation "measure (\<lambda>(cars, track, i, n_iter, acc, g). nat (n_iter + 1 - i))") auto

declare mc_loop.simps [simp del]

text \<open>The summary table, one row per car.\<close>

record row =
  car_col :: string
  win_pct :: real
  podium_pct :: real
  dnf_pct :: real
  avg_time :: "real option"

text \<open>\<^verbatim>\<open>100 * counts[name] / n_iter\<close> on Python integers.\<close>

definition pct :: "(string \<rightharpoonup> int) \<Rightarrow> string \<Rightarrow> int \<Rightarrow> error + real" where
  "pct m k n_iter =
     (case m k of
        None \<Rightarrow> Inl KeyError
      | Some v \<Rightarrow> truediv (of_int (100 * v)) (of_int n_iter))"

text \<open>\<^verbatim>\<open>np.mean\<close> of a non-empty list of floats; \<^verbatim>\<open>nan\<close> if one of them is.\<close>

definition np_mean :: "real option list \<Rightarrow> real option" where
  "np_mean ts =
     (case those ts of
        None \<Rightarrow> None
      | Some xs \<Rightarrow> Some (sum_list xs / of_nat (length xs)))"

definition summary_row :: "accs \<Rightarrow> int \<Rightarrow> Car \<Rightarrow> error + row" where
  "summary_row acc n_iter c =
     (case finish_times acc (name c) of
        None \<Rightarrow> Inl KeyError
      | Some ts \<Rightarrow>
     (case pct (winner_counts acc) (name c) n_iter of
        Inl e \<Rightarrow> Inl e
      | Inr w \<Rightarrow>
     (case pct (podium_counts acc) (name c) n_iter of
        Inl e \<Rightarrow> Inl e
      | Inr p \<Rightarrow>
     (case pct (dnfs acc) (name c) n_iter of
        Inl e \<Rightarrow> Inl e
      | Inr d \<Rightarrow>
          Inr \<lparr>car_col = name c, win_pct = w, podium_pct = p, dnf_pct = d,
               avg_time = (if length ts \<noteq> 0 then np_mean ts else None)\<rparr>))))"

fun build_summary :: "accs \<Rightarrow> int \<Rightarrow> Car list \<Rightarrow> row list \<Rightarrow> error + row list" where
  "build_summary acc n_iter [] summary = Inr summary"
| "build_summary acc n_iter (c # cs) summary =
     (case summary_row acc n_iter c of
        Inl e \<Rightarrow> Inl e
      | Inr r \<Rightarrow> build_summary acc n_iter cs (summary @ [r]))"

text \<open>
  The list \<^verbatim>\<open>summary\<close> as it stands before the DataFrame is built, with the generator
  after the trials.
\<close>

definition summary_rows :: "Car list \<Rightarrow> Track \<Rightarrow> int \<Rightarrow> rng \<Rightarrow> error + (row list \<times> rng)" where
  "summary_rows cars track n_iter g =
     (case mc_loop cars track 1 n_iter (init_accs cars) g of
        Inl e \<Rightarrow> Inl e
      | Inr (acc, g') \<Rightarrow>
          (case build_summary acc n_iter cars [] of
             Inl e \<Rightarrow> Inl e
           | Inr summary \<Rightarrow> Inr (summary, g')))"

text \<open>
  \<^verbatim>\<open>pd.DataFrame(summary)\<close> takes its columns from the keys of the row dicts: a frame
  built from the empty list has no columns. \<^verbatim>\<open>sort_values("Win %", ascending=False)\<close>
  raises KeyError when the frame has no such column; otherwise pandas computes the new
  order of the rows from the values of the column with numpy's argsort under the default
  \<^verbatim>\<open>kind='quicksort'\<close>. That routine is not code of this program and is the parameter
  \<open>argsort_desc\<close> here: it maps the values of the column to the positions of the rows
  in their new order. \<^verbatim>\<open>reset_index(drop=True)\<close> renumbers the rows and changes nothing
  in a list.
\<close>

record DataFrame =
  columns :: "string list"
  rows :: "row list"

definition DataFrame_of :: "row list \<Rightarrow> DataFrame" where
  "DataFrame_of summary =
     \<lparr>columns = (if summary = [] then []
                 else [''Car'', ''Win %'', ''Podium %'', ''DNF %'', ''Avg time (s)'']),
      rows = summary\<rparr>"

definition take_rows :: "'a list \<Rightarrow> nat list \<Rightarrow> error + 'a list" where
  "take_rows xs indexer =
     (if list_all (\<lambda>i. i < length xs) indexer then Inr (map (\<lambda>i. xs ! i) indexer)
      else Inl IndexError)"

definition sort_values_win :: "(real list \<Rightarrow> nat list) \<Rightarrow> DataFrame \<Rightarrow> error + DataFrame" where
  "sort_values_win argsort_desc df =
     (if ''Win %'' \<notin> set (columns df) then Inl KeyError
      else (case take_rows (rows df) (argsort_desc (map win_pct (rows df))) of
              Inl e \<Rightarrow> Inl e
            | Inr rs \<Rightarrow> Inr (df\<lparr>rows := rs\<rparr>)))"

definition MonteCarloRace_run :: "(real list \<Rightarrow> nat list) \<Rightarrow> Car list \<Rightarrow> Track \<Rightarrow> int \<Rightarrow> rng
    \<Rightarrow> error + (DataFrame \<times> rng)" where
  "MonteCarloRace_run argsort_desc cars track n_iter g =
     (case summary_rows cars track n_iter g of
        Inl e \<Rightarrow> Inl e
      | Inr (summary, g') \<Rightarrow>
          (case sort_values_win argsort_desc (DataFrame_of summary) of
             Inl e \<Rightarrow> Inl e
           | Inr df \<Rightarrow> Inr (df, g')))"

subsection \<open>Double-precision arithmetic\<close>

text \<open>
  A Python float is an IEEE 754 double, and each float operation of the program returns
  the exact result rounded to the nearest double, ties going to the even significand.
  \<open>binary64\<close> is that rounding on the reals: the result has 53 significant bits, and below
  \<open>2 powr - 1022\<close> it is a multiple of \<open>2 powr - 1074\<close>. Overflow is not modelled: a
  result beyond the largest double is infinite in Python and is rounded like any other
  number here.
\<close>

definition round_half_even :: "real \<Rightarrow> int" where
  "round_half_even r =
     (if r - of_int \<lfloor>r\<rfloor> < 1 / 2 then \<lfloor>r\<rfloor>
      else if 1 / 2 < r - of_int \<lfloor>r\<rfloor> then \<lfloor>r\<rfloor> + 1
      else if even \<lfloor>r\<rfloor> then \<lfloor>r\<rfloor> else \<lfloor>r\<rfloor> + 1)"



subsection \<open>RaceSimulator with rounded arithmetic\<close>

text \<open>
  The race once more, now with every float operation followed by a rounding \<open>fl\<close>:
  \<^verbatim>\<open>np.random.normal(loc, scale)\<close> computes \<open>loc + scale * z\<close> in doubles, the literal
  \<^verbatim>\<open>1e-3\<close> is the double nearest to 1/1000, and the speed, the lap time and the total
  time are rounded after each operation. With \<open>fl = binary64\<close> this is the arithmetic of
  the program; with the identity for \<open>fl\<close> it is the model in exact arithmetic given
  above (the lemmas \<open>lap_body_fl_exact\<close> to \<open>trial_fl_exact\<close> below). The counters of the
  aggregation are integers and need no rounding.
\<close>

definition normal_fl :: "(real \<Rightarrow> real) \<Rightarrow> real \<Rightarrow> real \<Rightarrow> rng \<Rightarrow> error + (real \<times> rng)" where
  "normal_fl fl loc scale g =
     (if scale < 0 then Inl ValueError
      else Inr (fl (loc + fl (scale * gauss (shd g))), stl g))"

definition truediv_fl :: "(real \<Rightarrow> real) \<Rightarrow> real \<Rightarrow> real \<Rightarrow> error + real" where
  "truediv_fl fl a b = (if b = 0 then Inl ZeroDivisionError else Inr (fl (a / b)))"

definition pit_stop_time_fl :: "(real \<Rightarrow> real) \<Rightarrow> Car \<Rightarrow> rng \<Rightarrow> error + (real \<times> rng)" where
  "pit_stop_time_fl fl car g =
     (case normal_fl fl (pit_mean car) (pit_std car) g of
        Inl e \<Rightarrow> Inl e
      | Inr (x, g') \<Rightarrow> Inr (max x 0, g'))"

definition lap_crash_prob_fl :: "(real \<Rightarrow> real) \<Rightarrow> Car \<Rightarrow> int \<Rightarrow> real" where
  "lap_crash_prob_fl fl car lap =
     (if lap \<in> set (boost_laps car) then fl (crash_prob car + boost_crash car)
      else crash_prob car)"

definition tyre_penalty_fl :: "(real \<Rightarrow> real) \<Rightarrow> Car \<Rightarrow> int \<Rightarrow> lap_state \<Rightarrow> real" where
  "tyre_penalty_fl fl car lap st =
     fl (fl (base_speed car * tyre_decay car) * of_int (laps_since_pit lap st))"

definition clamp_speed_fl :: "(real \<Rightarrow> real) \<Rightarrow> real \<Rightarrow> real" where
  "clamp_speed_fl fl speed = max speed (fl (1 / 1000))"

definition lap_body_fl :: "(real \<Rightarrow> real) \<Rightarrow> Track \<Rightarrow> Car \<Rightarrow> int \<Rightarrow> lap_state
    \<Rightarrow> error + lap_result" where
  "lap_body_fl fl track car lap st =
     (case rand (gen st) of (u, g1) \<Rightarrow>
        if u < lap_crash_prob_fl fl car lap then Inr (Crashed (st\<lparr>gen := g1\<rparr>))
        else
          (case normal_fl fl (base_speed car) (speed_std car) g1 of
             Inl e \<Rightarrow> Inl e
           | Inr (x, g2) \<Rightarrow>
          (case normal_fl fl 0 (weather_variance track) g2 of
             Inl e \<Rightarrow> Inl e
           | Inr (w, g3) \<Rightarrow>
          (case truediv_fl fl (lap_length track)
                  (clamp_speed_fl fl
                     (fl (fl (fl (x - tyre_penalty_fl fl car lap st)
                        + (if lap \<in> set (boost_laps car) then boost_speed car else 0)) + w))) of
             Inl e \<Rightarrow> Inl e
           | Inr lap_time \<Rightarrow>
               if lap \<in> set (pit_laps car) then
                 (case pit_stop_time_fl fl car g3 of
                    Inl e \<Rightarrow> Inl e
                  | Inr (p, g4) \<Rightarrow>
                      Inr (Completed \<lparr>total_time = fl (fl (total_time st + lap_time) + p),
                                      last_pit_lap = lap, gen = g4\<rparr>))
               else Inr (Completed \<lparr>total_time = fl (total_time st + lap_time),
                                     last_pit_lap = last_pit_lap st, gen = g3\<rparr>)))))"

function lap_loop_fl :: "(real \<Rightarrow> real) \<Rightarrow> Track \<Rightarrow> Car \<Rightarrow> int \<Rightarrow> lap_state
    \<Rightarrow> error + (status \<times> lap_state)" where
  "lap_loop_fl fl track car lap st =
     (if n_laps track < lap then Inr (Finished, st)
      else (case lap_body_fl fl track car lap st of
              Inl e \<Rightarrow> Inl e
            | Inr (Crashed st') \<Rightarrow> Inr (DNF lap, st')
            | Inr (Completed st') \<Rightarrow> lap_loop_fl fl track car (lap + 1) st'))"
  by pat_completeness auto
termination
  by (relation "measure (\<lambda>(fl, track, car, lap, st). nat (n_laps track + 1 - lap))") auto

declare lap_loop_fl.simps [simp del]

definition car_result_fl :: "(real \<Rightarrow> real) \<Rightarrow> Track \<Rightarrow> Car \<Rightarrow> rng \<Rightarrow> error + (outcome \<times> rng)" where
  "car_result_fl fl track car g =
     (case lap_loop_fl fl track car 1 (init_state g) of
        Inl e \<Rightarrow> Inl e
      | Inr (s, st) \<Rightarrow>
          Inr (\<lparr>time = (if s \<noteq> Finished then None else Some (total_time st)),
                status = s,
                laps = (case s of DNF lap \<Rightarrow> lap | Finished \<Rightarrow> n_laps track)\<rparr>,
               gen st))"

fun race_loop_fl :: "(real \<Rightarrow> real) \<Rightarrow> Track \<Rightarrow> Car list \<Rightarrow> (string \<times> outcome) list \<Rightarrow> rng
    \<Rightarrow> error + ((string \<times> outcome) list \<times> rng)" where
  "race_loop_fl fl track [] results g = Inr (results, g)"
| "race_loop_fl fl track (car # cars) results g =
     (case car_result_fl fl track car g of
        Inl e \<Rightarrow> Inl e
      | Inr (out, g') \<Rightarrow> race_loop_fl fl track cars (AList.update (name car) out results) g')"

definition RaceSimulator_run_fl :: "(real \<Rightarrow> real) \<Rightarrow> Car list \<Rightarrow> Track \<Rightarrow> rng
    \<Rightarrow> error + ((string \<times> outcome) list \<times> rng)" where
  "RaceSimulator_run_fl fl cars track g = race_loop_fl fl track cars [] g"

definition trial_fl :: "(real \<Rightarrow> real) \<Rightarrow> Car list \<Rightarrow> Track \<Rightarrow> accs \<Rightarrow> rng
    \<Rightarrow> error + (accs \<times> rng)" where
  "trial_fl fl cars track acc g =
     (case RaceSimulator_run_fl fl cars track g of
        Inl e \<Rightarrow> Inl e
      | Inr (res, g') \<Rightarrow>
          (case (if filter (\<lambda>(n, d). status d = Finished) res \<noteq> []
                 then win_podium (filter (\<lambda>(n, d). status d = Finished) res)
                        (winner_counts acc) (podium_counts acc)
                 else Inr (winner_counts acc, podium_counts acc)) of
             Inl e \<Rightarrow> Inl e
           | Inr (wc, pc) \<Rightarrow>
               (case tally res (finish_times acc) (dnfs acc) of
                  Inl e \<Rightarrow> Inl e
                | Inr (ft, dn) \<Rightarrow>
                    Inr (\<lparr>winner_counts = wc, podium_counts = pc,
                          finish_times = ft, dnfs = dn\<rparr>, g'))))"




subsection \<open>Specification functions\<close>

text \<open>The last lap among laps 1..k on which a pit stop is scheduled, 0 when there is none.\<close>

definition last_pit_upto :: "int list \<Rightarrow> int \<Rightarrow> int" where
  "last_pit_upto pits k = Max (insert 0 {l \<in> set pits. 1 \<le> l \<and> l \<le> k})"

text \<open>The invariant of the win and podium counters: every win count is matched by a podium
  count that is at least as large.\<close>

definition counts_ok :: "(string \<rightharpoonup> int) \<Rightarrow> (string \<rightharpoonup> int) \<Rightarrow> bool" where
  "counts_ok wc pc = (\<forall>n w. wc n = Some w \<longrightarrow> (\<exists>p. pc n = Some p \<and> 0 \<le> w \<and> w \<le> p))"



section \<open>Concrete inputs\<close>

text \<open>Cars, circuits and generator states at which the theorems below are evaluated.\<close>

definition d_half :: draw where
  "d_half = \<lparr>uniform01 = 1 / 2, gauss = 0\<rparr>"

definition plain_car :: "string \<Rightarrow> real \<Rightarrow> real \<Rightarrow> Car" where
  "plain_car nm v p =
     \<lparr>name = nm, base_speed = v, speed_std = 0, crash_prob = p, pit_mean = 0,
      pit_std = 0, pit_laps = [], tyre_decay = 0, boost_laps = [], boost_speed = 0,
      boost_crash = 0\<rparr>"

definition d_low :: draw where
  "d_low = \<lparr>uniform01 = 1 / 10, gauss = 0\<rparr>"

definition pit_car :: Car where
  "pit_car = (plain_car ''A'' 100 0)\<lparr>pit_laps := [1], tyre_decay := 1 / 100\<rparr>"

definition circuit :: "real \<Rightarrow> int \<Rightarrow> Track" where
  "circuit len n = \<lparr>lap_length = len, n_laps = n, weather_variance = 0\<rparr>"

definition two_cars :: "Car list" where
  "two_cars = [plain_car ''A'' 100 0, plain_car ''B'' 50 0]"


definition risky_A :: Car where
  "risky_A = plain_car ''A'' 100 (3 / 10)"

definition risky_B :: Car where
  "risky_B = plain_car ''B'' 50 (3 / 10)"

definition risky_C :: Car where
  "risky_C = plain_car ''C'' 80 (3 / 10)"

definition d_03 :: draw where
  "d_03 = \<lparr>uniform01 = 3 / 10, gauss = 0\<rparr>"

definition d_09 :: draw where
  "d_09 = \<lparr>uniform01 = 9 / 10, gauss = 0\<rparr>"

definition shifting_stream :: rng where
  "shifting_stream =
     d_03 ## d_09 ## d_09 ## d_low ## d_09 ## d_09 ## d_09 ## d_low ## sconst d_09"

section \<open>Properties of one race\<close>

subsection \<open>The speed clamp\<close>

lemma clamp_speed_pos: "0 < clamp_speed speed"
  by (simp add: clamp_speed_def max_def)

lemma lap_body_no_zero_division: "lap_body track car lap st \<noteq> Inl ZeroDivisionError"
  by (auto simp: lap_body_def rand_def normal_def truediv_def pit_stop_time_def
      clamp_speed_def max_def split: sum.splits prod.splits if_splits)

lemma lap_loop_no_zero_division: "lap_loop track car lap st \<noteq> Inl ZeroDivisionError"
proof (induction track car lap st rule: lap_loop.induct)
  case (1 track car lap st)
  show ?case
  proof (cases "n_laps track < lap")
    case True
    then show ?thesis by (simp add: lap_loop.simps)
  next
    case False
    show ?thesis
    proof (cases "lap_body track car lap st")
      case (Inl e)
      with False lap_body_no_zero_division [of track car lap st] show ?thesis
        by (simp add: lap_loop.simps [of track car lap st])
    next
      case (Inr r)
      with False 1 show ?thesis
        by (cases r) (simp_all add: lap_loop.simps [of track car lap st])
    qed
  qed
qed

lemma car_result_no_zero_division: "car_result track car g \<noteq> Inl ZeroDivisionError"
  using lap_loop_no_zero_division [of track car 1 "init_state g"]
  by (auto simp: car_result_def split: sum.splits)

lemma race_loop_no_zero_division: "race_loop track cars results g \<noteq> Inl ZeroDivisionError"
proof (induction cars arbitrary: results g)
  case Nil
  show ?case by simp
next
  case (Cons car cars)
  show ?case
    using car_result_no_zero_division [of track car g] Cons
    by (auto split: sum.splits)
qed

text \<open>
  C9. The speed that divides \<open>lap_length\<close> is the clamped one: it is at least 1/1000,
  hence strictly positive, whatever the computed speed was; the division by it succeeds
  and gives \<open>lap_length / clamp_speed speed\<close>; neither one lap nor a whole race ever
  raises ZeroDivisionError, so a computed speed that is zero or negative is never
  surfaced as an error.
\<close>

theorem effective_speed_clamped:
  "1 / 1000 \<le> clamp_speed speed \<and> 0 < clamp_speed speed \<and>
   truediv (lap_length track) (clamp_speed speed)
     = Inr (lap_length track / clamp_speed speed) \<and>
   lap_body track car lap st \<noteq> Inl ZeroDivisionError \<and>
   RaceSimulator_run cars track g \<noteq> Inl ZeroDivisionError"
  using clamp_speed_pos [of speed] lap_body_no_zero_division [of track car lap st]
    race_loop_no_zero_division [of track cars "[]" g]
  by (simp add: truediv_def RaceSimulator_run_def) (simp add: clamp_speed_def)

theorem effective_speed_clamped_witness:
  "clamp_speed (- 5) = 1 / 1000 \<and>
   truediv (lap_length (circuit 100 3)) (clamp_speed (- 5)) = Inr 100000 \<and>
   lap_body (circuit 100 3) (plain_car ''A'' (- 5) 0) 1 (init_state (sconst d_half))
     = Inr (Completed \<lparr>total_time = 100000, last_pit_lap = 0, gen = sconst d_half\<rparr>) \<and>
   RaceSimulator_run [plain_car ''A'' (- 5) 0] (circuit 100 3) (sconst d_half)
     \<noteq> Inl ZeroDivisionError"
  using effective_speed_clamped [of "- 5" "circuit 100 3" "plain_car ''A'' (- 5) 0" 1
      "init_state (sconst d_half)" "[plain_car ''A'' (- 5) 0]" "sconst d_half"]
  by (simp add: clamp_speed_def circuit_def truediv_def lap_body_def rand_def normal_def
      plain_car_def init_state_def d_half_def tyre_penalty_def laps_since_pit_def
      lap_crash_prob_def)

subsection \<open>The lap loop, lap by lap\<close>

text \<open>
  The state of a car after its first k laps is the final state of the same loop on the
  circuit cut to k laps, \<open>track\<lparr>n_laps := k\<rparr>\<close>: the body of a lap reads the length and
  the weather of the circuit only.
\<close>

lemma lap_body_n_laps [simp]: "lap_body (track\<lparr>n_laps := k\<rparr>) car lap st = lap_body track car lap st"
  by (simp add: lap_body_def cong: sum.case_cong prod.case_cong if_cong)

lemma lap_body_Crashed_iff:
  "lap_body track car lap st = Inr (Crashed st') \<longleftrightarrow>
     uniform01 (shd (gen st)) < lap_crash_prob car lap \<and> st' = st\<lparr>gen := stl (gen st)\<rparr>"
  by (auto simp: lap_body_def rand_def split: sum.splits prod.splits if_splits)

lemma lap_loop_past_end: "n_laps track < lap \<Longrightarrow> lap_loop track car lap st = Inr (Finished, st)"
  by (simp add: lap_loop.simps)

lemma lap_loop_step:
  "lap \<le> n_laps track \<Longrightarrow> lap_loop track car lap st =
     (case lap_body track car lap st of
        Inl e \<Rightarrow> Inl e
      | Inr (Crashed st') \<Rightarrow> Inr (DNF lap, st')
      | Inr (Completed st') \<Rightarrow> lap_loop track car (lap + 1) st')"
  by (subst lap_loop.simps) simp

text \<open>A race that completes its first k laps continues at lap k + 1 from the state reached.\<close>

lemma lap_loop_split:
  assumes "tk = track\<lparr>n_laps := k\<rparr>" "lap_loop tk car lap st = Inr (Finished, stk)"
    "k \<le> n_laps track"
  shows "lap_loop track car lap st = lap_loop track car (max lap (k + 1)) stk"
  using assms
proof (induction tk car lap st rule: lap_loop.induct)
  case (1 tk car lap st)
  show ?case
  proof (cases "k < lap")
    case True
    then have "max lap (k + 1) = lap" by simp
    with True 1 show ?thesis by (simp add: lap_loop_past_end)
  next
    case False
    then have le: "lap \<le> n_laps tk" "lap \<le> n_laps track" using 1 by simp_all
    have run: "(case lap_body track car lap st of
        Inl e \<Rightarrow> Inl e
      | Inr (Crashed st') \<Rightarrow> Inr (DNF lap, st')
      | Inr (Completed st') \<Rightarrow> lap_loop tk car (lap + 1) st') = Inr (Finished, stk)"
      using 1(3) le(1) lap_loop_step [of lap tk car st] 1(2) by simp
    then obtain st1 where b: "lap_body track car lap st = Inr (Completed st1)"
      and r: "lap_loop tk car (lap + 1) st1 = Inr (Finished, stk)"
      by (cases "lap_body track car lap st") (auto split: lap_result.splits)
    have "lap_loop track car (lap + 1) st1 = lap_loop track car (max (lap + 1) (k + 1)) stk"
      using 1(1) [of "Completed st1" st1] False b r 1(2,4) by simp
    with b le False show ?thesis by (simp add: lap_loop_step [of lap track] max_def)
  qed
qed

lemma lap_loop_DNF:
  assumes "lap_loop track car lap st = Inr (DNF j, st')"
  shows "lap \<le> j \<and> j \<le> n_laps track \<and>
    (\<exists>stj. lap_loop (track\<lparr>n_laps := j - 1\<rparr>) car lap st = Inr (Finished, stj) \<and>
       lap_body track car j stj = Inr (Crashed st'))"
  using assms
proof (induction track car lap st rule: lap_loop.induct)
  case (1 track car lap st)
  have le: "lap \<le> n_laps track" using 1(2) by (auto simp: lap_loop.simps [of track car lap st] split: if_splits)
  show ?case
  proof (cases "lap_body track car lap st")
    case (Inl e)
    with 1(2) le show ?thesis by (simp add: lap_loop_step)
  next
    case (Inr r)
    show ?thesis
    proof (cases r)
      case (Crashed s1)
      with Inr 1(2) le have "j = lap" "s1 = st'" by (simp_all add: lap_loop_step)
      with Inr Crashed le show ?thesis by (simp add: lap_loop_past_end)
    next
      case (Completed s1)
      with Inr 1(2) le have r: "lap_loop track car (lap + 1) s1 = Inr (DNF j, st')"
        by (simp add: lap_loop_step)
      from 1(1) [of r s1] le Inr Completed r
      obtain stj where j: "lap + 1 \<le> j" "j \<le> n_laps track"
        and p: "lap_loop (track\<lparr>n_laps := j - 1\<rparr>) car (lap + 1) s1 = Inr (Finished, stj)"
        and c: "lap_body track car j stj = Inr (Crashed st')"
        by auto
      have "lap_loop (track\<lparr>n_laps := j - 1\<rparr>) car lap st = Inr (Finished, stj)"
        using j p Inr Completed by (simp add: lap_loop_step [of lap "track\<lparr>n_laps := j - 1\<rparr>"])
      with j c show ?thesis by auto
    qed
  qed
qed

text \<open>
  C6. In the outcome of a car, a Finished status comes with \<open>laps = n_laps\<close> and the
  accumulated time of the whole loop. A status DNF k comes with \<open>laps = k\<close>, where k is
  a lap of the race (1 \<le> k \<le> n_laps) and is the crash lap: the car completed laps
  1..k-1, reaching a state \<open>st\<close>, and the crash draw of lap k, the next draw of the
  generator, fell below the crash probability of that lap. The loop ended there: its
  final state is \<open>st\<close> with exactly that one draw taken, so the total time and the last
  pit lap are those after lap k-1 (no lap time and no pit time of lap k), and no draw of
  a later lap was made.
\<close>

theorem laps_completed_and_crash_lap:
  assumes "car_result track car g = Inr (out, g')"
  shows "case status out of
      Finished \<Rightarrow>
        laps out = n_laps track \<and>
        (\<exists>st. lap_loop track car 1 (init_state g) = Inr (Finished, st) \<and>
              time out = Some (total_time st) \<and> g' = gen st)
    | DNF k \<Rightarrow>
        laps out = k \<and> 1 \<le> k \<and> k \<le> n_laps track \<and> time out = None \<and>
        (\<exists>st. lap_loop (track\<lparr>n_laps := k - 1\<rparr>) car 1 (init_state g) = Inr (Finished, st) \<and>
              uniform01 (shd (gen st)) < lap_crash_prob car k \<and>
              lap_loop track car 1 (init_state g) = Inr (DNF k, st\<lparr>gen := stl (gen st)\<rparr>) \<and>
              g' = stl (gen st))"
proof -
  from assms obtain s stf where run: "lap_loop track car 1 (init_state g) = Inr (s, stf)"
    and out: "out = \<lparr>time = (if s \<noteq> Finished then None else Some (total_time stf)),
                status = s,
                laps = (case s of DNF lap \<Rightarrow> lap | Finished \<Rightarrow> n_laps track)\<rparr>"
    and g': "g' = gen stf"
    by (auto simp: car_result_def split: sum.splits)
  show ?thesis
  proof (cases s)
    case Finished
    with run out g' show ?thesis by simp
  next
    case (DNF k)
    from lap_loop_DNF [OF run [unfolded DNF]]
    obtain stj where k: "1 \<le> k" "k \<le> n_laps track"
      and p: "lap_loop (track\<lparr>n_laps := k - 1\<rparr>) car 1 (init_state g) = Inr (Finished, stj)"
      and c: "lap_body track car k stj = Inr (Crashed stf)"
      by auto
    from c have "uniform01 (shd (gen stj)) < lap_crash_prob car k"
      and "stf = stj\<lparr>gen := stl (gen stj)\<rparr>"
      by (simp_all add: lap_body_Crashed_iff)
    with k p run out g' DNF show ?thesis by auto
  qed
qed

theorem laps_completed_and_crash_lap_witness:
  "car_result (circuit 100 3) (plain_car ''A'' 100 (3 / 10))
     (d_half ## d_half ## d_half ## d_low ## sconst d_half)
     = Inr (\<lparr>time = None, status = DNF 2, laps = 2\<rparr>, sconst d_half) \<and>
   (\<exists>st. lap_loop ((circuit 100 3)\<lparr>n_laps := 2 - 1\<rparr>) (plain_car ''A'' 100 (3 / 10)) 1
            (init_state (d_half ## d_half ## d_half ## d_low ## sconst d_half))
            = Inr (Finished, st) \<and>
         uniform01 (shd (gen st)) < lap_crash_prob (plain_car ''A'' 100 (3 / 10)) 2 \<and>
         lap_loop (circuit 100 3) (plain_car ''A'' 100 (3 / 10)) 1
            (init_state (d_half ## d_half ## d_half ## d_low ## sconst d_half))
            = Inr (DNF 2, st\<lparr>gen := stl (gen st)\<rparr>) \<and>
         sconst d_half = stl (gen st))"
proof -
  have e: "car_result (circuit 100 3) (plain_car ''A'' 100 (3 / 10))
     (d_half ## d_half ## d_half ## d_low ## sconst d_half)
     = Inr (\<lparr>time = None, status = DNF 2, laps = 2\<rparr>, sconst d_half)"
    by (simp add: car_result_def lap_loop.simps lap_body_def rand_def normal_def truediv_def
        clamp_speed_def tyre_penalty_def laps_since_pit_def lap_crash_prob_def
        init_state_def plain_car_def circuit_def d_half_def d_low_def)
  from laps_completed_and_crash_lap [OF e] e show ?thesis by simp
qed

subsection \<open>Tyre wear and pit stops\<close>

lemma last_pit_upto_0: "last_pit_upto pits 0 = 0"
proof -
  have e: "{l \<in> set pits. 1 \<le> l \<and> l \<le> 0} = {}" by auto
  show ?thesis unfolding last_pit_upto_def e by simp
qed

lemma last_pit_upto_step:
  assumes "0 \<le> k"
  shows "last_pit_upto pits (k + 1) = (if k + 1 \<in> set pits then k + 1 else last_pit_upto pits k)"
proof -
  let ?S = "{l \<in> set pits. 1 \<le> l \<and> l \<le> k}"
  have fin: "finite (insert 0 ?S)" by simp
  have bound: "Max (insert 0 ?S) \<le> k" using assms by (subst Max_le_iff) auto
  show ?thesis
  proof (cases "k + 1 \<in> set pits")
    case True
    then have e: "{l \<in> set pits. 1 \<le> l \<and> l \<le> k + 1} = insert (k + 1) ?S" using assms by auto
    have "last_pit_upto pits (k + 1) = Max (insert (k + 1) (insert 0 ?S))"
      unfolding last_pit_upto_def e by (simp only: insert_commute)
    also have "\<dots> = max (k + 1) (Max (insert 0 ?S))" using fin by (subst Max_insert) auto
    also have "\<dots> = k + 1" using bound by simp
    finally show ?thesis using True by simp
  next
    case False
    then have e: "{l \<in> set pits. 1 \<le> l \<and> l \<le> k + 1} = ?S"
      by (auto simp: order_le_less)
    show ?thesis unfolding last_pit_upto_def e using False by simp
  qed
qed

lemma lap_body_last_pit:
  "lap_body track car lap st = Inr (Completed st') \<Longrightarrow>
     last_pit_lap st' = (if lap \<in> set (pit_laps car) then lap else last_pit_lap st)"
  by (auto simp: lap_body_def rand_def split: sum.splits prod.splits if_splits)

lemma lap_loop_last_pit:
  assumes "lap_loop track car lap st = Inr (Finished, st')" "1 \<le> lap" "lap - 1 \<le> n_laps track"
    "last_pit_lap st = last_pit_upto (pit_laps car) (lap - 1)"
  shows "last_pit_lap st' = last_pit_upto (pit_laps car) (n_laps track)"
  using assms
proof (induction track car lap st rule: lap_loop.induct)
  case (1 track car lap st)
  show ?case
  proof (cases "n_laps track < lap")
    case True
    with 1(4) have "n_laps track = lap - 1" by simp
    with True 1(2,5) show ?thesis by (simp add: lap_loop_past_end)
  next
    case False
    then have le: "lap \<le> n_laps track" by simp
    have "(case lap_body track car lap st of
        Inl e \<Rightarrow> Inl e
      | Inr (Crashed st') \<Rightarrow> Inr (DNF lap, st')
      | Inr (Completed st') \<Rightarrow> lap_loop track car (lap + 1) st') = Inr (Finished, st')"
      using 1(2) le lap_loop_step [of lap track car st] by simp
    then obtain st1 where b: "lap_body track car lap st = Inr (Completed st1)"
      and r: "lap_loop track car (lap + 1) st1 = Inr (Finished, st')"
      by (cases "lap_body track car lap st") (auto split: lap_result.splits)
    have "last_pit_lap st1 = last_pit_upto (pit_laps car) lap"
      using lap_body_last_pit [OF b] 1(3,5) last_pit_upto_step [of "lap - 1" "pit_laps car"]
      by simp
    with 1(1) [of "Completed st1" st1] False b r 1(3) le show ?thesis by simp
  qed
qed

text \<open>
  C8. Let a car have completed laps 1..L of a race with more than L laps, and let \<open>st\<close>
  be its state then; the race goes on at lap L + 1 from \<open>st\<close>. The last pit lap in
  \<open>st\<close> is the last scheduled pit lap among 1..L (0 if none), and the value of
  \<open>laps_since_pit\<close> used at lap L + 1 is (L + 1) - last pit lap - 1. If L is in
  \<open>pit_laps\<close>, that value is 0 and the tyre penalty of lap L + 1 is 0. After lap L + 1
  is completed, the value for lap L + 2 is 0 if lap L + 1 was a pit lap and one more than
  the value for lap L + 1 otherwise.
\<close>

theorem tyre_wear_resets_after_pit:
  assumes "lap_loop (track\<lparr>n_laps := L\<rparr>) car 1 (init_state g) = Inr (Finished, st)"
    and "0 \<le> L" and "L < n_laps track"
  shows "lap_loop track car 1 (init_state g) = lap_loop track car (L + 1) st \<and>
    last_pit_lap st = last_pit_upto (pit_laps car) L \<and>
    laps_since_pit (L + 1) st = L + 1 - last_pit_upto (pit_laps car) L - 1 \<and>
    (L \<in> set (pit_laps car) \<longrightarrow>
       laps_since_pit (L + 1) st = 0 \<and> tyre_penalty car (L + 1) st = 0) \<and>
    (\<forall>st'. lap_body track car (L + 1) st = Inr (Completed st') \<longrightarrow>
       laps_since_pit (L + 2) st' =
         (if L + 1 \<in> set (pit_laps car) then 0 else laps_since_pit (L + 1) st + 1))"
proof -
  have a: "lap_loop track car 1 (init_state g) = lap_loop track car (L + 1) st"
    using lap_loop_split [OF refl assms(1)] assms(2,3) by (simp add: max_def)
  have b: "last_pit_lap st = last_pit_upto (pit_laps car) L"
    using lap_loop_last_pit [OF assms(1)] assms(2)
    by (simp add: init_state_def last_pit_upto_0)
  have c: "L \<in> set (pit_laps car) \<Longrightarrow> last_pit_upto (pit_laps car) L = L"
    using last_pit_upto_step [of "L - 1" "pit_laps car"] assms(2) last_pit_upto_0 [of "pit_laps car"]
    by (cases "L = 0") auto
  have d: "laps_since_pit (L + 2) st' =
         (if L + 1 \<in> set (pit_laps car) then 0 else laps_since_pit (L + 1) st + 1)"
    if "lap_body track car (L + 1) st = Inr (Completed st')" for st'
    using lap_body_last_pit [OF that] by (simp add: laps_since_pit_def)
  show ?thesis using a b c d by (simp add: laps_since_pit_def tyre_penalty_def)
qed

theorem tyre_wear_resets_after_pit_witness:
  "lap_loop ((circuit 100 3)\<lparr>n_laps := 1\<rparr>) pit_car 1 (init_state (sconst d_half))
     = Inr (Finished, \<lparr>total_time = 1, last_pit_lap = 1, gen = sconst d_half\<rparr>) \<and>
   (1::int) \<in> set (pit_laps pit_car) \<and>
   laps_since_pit (1 + 1) \<lparr>total_time = 1, last_pit_lap = 1, gen = sconst d_half\<rparr> = 0 \<and>
   tyre_penalty pit_car (1 + 1) \<lparr>total_time = 1, last_pit_lap = 1, gen = sconst d_half\<rparr> = 0 \<and>
   lap_loop (circuit 100 3) pit_car 1 (init_state (sconst d_half))
     = lap_loop (circuit 100 3) pit_car (1 + 1)
         \<lparr>total_time = 1, last_pit_lap = 1, gen = sconst d_half\<rparr>"
proof -
  have e: "lap_loop ((circuit 100 3)\<lparr>n_laps := 1\<rparr>) pit_car 1 (init_state (sconst d_half))
     = Inr (Finished, \<lparr>total_time = 1, last_pit_lap = 1, gen = sconst d_half\<rparr>)"
    by (simp add: lap_loop.simps lap_body_def rand_def normal_def truediv_def
        clamp_speed_def tyre_penalty_def laps_since_pit_def lap_crash_prob_def
        pit_stop_time_def init_state_def pit_car_def plain_car_def circuit_def d_half_def)
  have n: "(1::int) < n_laps (circuit 100 3)" by (simp add: circuit_def)
  have m: "(1::int) \<in> set (pit_laps pit_car)" by (simp add: pit_car_def)
  from tyre_wear_resets_after_pit [OF e _ n] e m show ?thesis by simp
qed

subsection \<open>The order of the cars\<close>

lemma race_loop_append:
  "race_loop track (xs @ ys) results g =
     (case race_loop track xs results g of
        Inl e \<Rightarrow> Inl e
      | Inr (r, g') \<Rightarrow> race_loop track ys r g')"
  by (induction xs arbitrary: results g) (auto split: sum.splits)

lemma race_loop_other_names:
  "race_loop track cars results g = Inr (res, g') \<Longrightarrow> n \<notin> name ` set cars \<Longrightarrow>
     map_of res n = map_of results n"
proof (induction cars arbitrary: results g)
  case Nil
  then show ?case by simp
next
  case (Cons c cars)
  from Cons.prems(1) obtain out g1 where c: "car_result track c g = Inr (out, g1)"
    and r: "race_loop track cars (AList.update (name c) out results) g1 = Inr (res, g')"
    by (auto split: sum.splits)
  from Cons.IH [OF r] Cons.prems(2) show ?case by (simp add: update_conv')
qed

text \<open>The entry of a car: its own result from the generator the cars before it left.\<close>

lemma race_entry:
  assumes "RaceSimulator_run (pre @ c # post) track g = Inr (res, g1)"
    "name c \<notin> name ` set post"
  shows "\<exists>rp gc out g2. RaceSimulator_run pre track g = Inr (rp, gc) \<and>
     car_result track c gc = Inr (out, g2) \<and>
     race_loop track post (AList.update (name c) out rp) g2 = Inr (res, g1) \<and>
     map_of res (name c) = Some out"
proof -
  from assms(1) obtain rp gc where p: "race_loop track pre [] g = Inr (rp, gc)"
    and r: "race_loop track (c # post) rp gc = Inr (res, g1)"
    by (auto simp: RaceSimulator_run_def race_loop_append split: sum.splits)
  from r obtain out g2 where c: "car_result track c gc = Inr (out, g2)"
    and q: "race_loop track post (AList.update (name c) out rp) g2 = Inr (res, g1)"
    by (auto split: sum.splits)
  from race_loop_other_names [OF q assms(2)] have "map_of res (name c) = Some out"
    by (simp add: update_conv')
  with p c q show ?thesis by (simp add: RaceSimulator_run_def)
qed

text \<open>
  C4 does not hold: the cars of one race draw from the same generator, one after the
  other, so the position of a car in the list decides which draws it gets. With the first
  draw below the crash probability and the later ones above it, the car evaluated first
  crashes on lap 1 and the other one finishes, whichever of the two comes first.
\<close>

theorem order_changes_outcome:
  "RaceSimulator_run [risky_A, risky_B] (circuit 100 1) (d_low ## sconst d_half)
     = Inr ([(''A'', \<lparr>time = None, status = DNF 1, laps = 1\<rparr>),
             (''B'', \<lparr>time = Some 2, status = Finished, laps = 1\<rparr>)], sconst d_half) \<and>
   RaceSimulator_run [risky_B, risky_A] (circuit 100 1) (d_low ## sconst d_half)
     = Inr ([(''B'', \<lparr>time = None, status = DNF 1, laps = 1\<rparr>),
             (''A'', \<lparr>time = Some 1, status = Finished, laps = 1\<rparr>)], sconst d_half)"
  by (simp add: RaceSimulator_run_def car_result_def lap_loop.simps lap_body_def rand_def
      normal_def truediv_def clamp_speed_def tyre_penalty_def laps_since_pit_def
      lap_crash_prob_def init_state_def risky_A_def risky_B_def plain_car_def circuit_def
      d_half_def d_low_def)

text \<open>
  C4, amended: the outcome of a car is its own result from the generator state left by
  the cars before it in the list. Reordering or replacing the cars after it (their names
  differing from its name) leaves its outcome unchanged.
\<close>

theorem outcome_independent_of_later_cars:
  assumes "RaceSimulator_run (pre @ c # post) track g = Inr (res, g1)"
    and "RaceSimulator_run (pre @ c # post') track g = Inr (res', g1')"
    and "name c \<notin> name ` set post" and "name c \<notin> name ` set post'"
  shows "map_of res' (name c) = map_of res (name c) \<and>
    (\<exists>rp gc out g2. RaceSimulator_run pre track g = Inr (rp, gc) \<and>
       car_result track c gc = Inr (out, g2) \<and> map_of res (name c) = Some out)"
  using race_entry [OF assms(1,3)] race_entry [OF assms(2,4)] by auto

theorem outcome_independent_of_later_cars_witness:
  "RaceSimulator_run ([] @ risky_A # [risky_B, risky_C]) (circuit 100 1)
       (d_half ## d_half ## d_half ## d_low ## sconst d_half)
     = Inr ([(''A'', \<lparr>time = Some 1, status = Finished, laps = 1\<rparr>),
             (''B'', \<lparr>time = None, status = DNF 1, laps = 1\<rparr>),
             (''C'', \<lparr>time = Some (5 / 4), status = Finished, laps = 1\<rparr>)], sconst d_half) \<and>
   RaceSimulator_run ([] @ risky_A # [risky_C, risky_B]) (circuit 100 1)
       (d_half ## d_half ## d_half ## d_low ## sconst d_half)
     = Inr ([(''A'', \<lparr>time = Some 1, status = Finished, laps = 1\<rparr>),
             (''C'', \<lparr>time = None, status = DNF 1, laps = 1\<rparr>),
             (''B'', \<lparr>time = Some 2, status = Finished, laps = 1\<rparr>)], sconst d_half) \<and>
   map_of [(''A'', \<lparr>time = Some 1, status = Finished, laps = 1\<rparr>),
           (''C'', \<lparr>time = None, status = DNF 1, laps = 1\<rparr>),
           (''B'', \<lparr>time = Some 2, status = Finished, laps = 1\<rparr>)] (name risky_A)
     = map_of [(''A'', \<lparr>time = Some 1, status = Finished, laps = 1\<rparr>),
               (''B'', \<lparr>time = None, status = DNF 1, laps = 1\<rparr>),
               (''C'', \<lparr>time = Some (5 / 4), status = Finished, laps = 1\<rparr>)] (name risky_A)"
proof -
  have a: "RaceSimulator_run ([] @ risky_A # [risky_B, risky_C]) (circuit 100 1)
       (d_half ## d_half ## d_half ## d_low ## sconst d_half)
     = Inr ([(''A'', \<lparr>time = Some 1, status = Finished, laps = 1\<rparr>),
             (''B'', \<lparr>time = None, status = DNF 1, laps = 1\<rparr>),
             (''C'', \<lparr>time = Some (5 / 4), status = Finished, laps = 1\<rparr>)], sconst d_half)"
    by (simp add: RaceSimulator_run_def car_result_def lap_loop.simps lap_body_def rand_def
      normal_def truediv_def clamp_speed_def tyre_penalty_def laps_since_pit_def
      lap_crash_prob_def init_state_def risky_A_def risky_B_def risky_C_def plain_car_def
      circuit_def d_half_def d_low_def)
  have b: "RaceSimulator_run ([] @ risky_A # [risky_C, risky_B]) (circuit 100 1)
       (d_half ## d_half ## d_half ## d_low ## sconst d_half)
     = Inr ([(''A'', \<lparr>time = Some 1, status = Finished, laps = 1\<rparr>),
             (''C'', \<lparr>time = None, status = DNF 1, laps = 1\<rparr>),
             (''B'', \<lparr>time = Some 2, status = Finished, laps = 1\<rparr>)], sconst d_half)"
    by (simp add: RaceSimulator_run_def car_result_def lap_loop.simps lap_body_def rand_def
      normal_def truediv_def clamp_speed_def tyre_penalty_def laps_since_pit_def
      lap_crash_prob_def init_state_def risky_A_def risky_B_def risky_C_def plain_car_def
      circuit_def d_half_def d_low_def)
  have n: "name risky_A \<notin> name ` set [risky_B, risky_C]"
    "name risky_A \<notin> name ` set [risky_C, risky_B]"
    by (simp_all add: risky_A_def risky_B_def risky_C_def plain_car_def)
  from outcome_independent_of_later_cars [OF a b n] a b show ?thesis by blast
qed

section \<open>Properties of the aggregation\<close>

subsection \<open>Win and podium counters\<close>

lemma incr_Inr: "incr m k = Inr m' \<Longrightarrow> \<exists>v. m k = Some v \<and> m' = m(k \<mapsto> v + 1)"
  by (auto simp: incr_def split: option.splits)

lemma incr_all_mono:
  "incr_all m ks = Inr m' \<Longrightarrow> m n = Some v \<Longrightarrow>
     \<exists>v'. m' n = Some v' \<and> v \<le> v' \<and> (n \<in> set ks \<longrightarrow> v + 1 \<le> v')"
proof (induction ks arbitrary: m v)
  case Nil
  then show ?case by simp
next
  case (Cons k ks)
  from Cons.prems(1) obtain m1 where i: "incr m k = Inr m1" and r: "incr_all m1 ks = Inr m'"
    by (auto split: sum.splits)
  from incr_Inr [OF i] obtain u where u: "m k = Some u" "m1 = m(k \<mapsto> u + 1)" by auto
  show ?case
  proof (cases "n = k")
    case True
    with u Cons.prems(2) have "m1 n = Some (v + 1)" by simp
    from Cons.IH [OF r this] show ?thesis by auto
  next
    case False
    with u Cons.prems(2) have "m1 n = Some v" by simp
    from Cons.IH [OF r this] False show ?thesis by auto
  qed
qed

lemma win_podium_ok:
  assumes "win_podium finished wc pc = Inr (wc', pc')" "counts_ok wc pc"
  shows "counts_ok wc' pc'"
proof -
  from assms(1) obtain first rest where o: "sort_key time_key finished = first # rest"
    and i: "incr wc (fst first) = Inr wc'"
    and a: "incr_all pc (map fst (take 3 (first # rest))) = Inr pc'"
    by (auto simp: win_podium_def split: list.splits sum.splits)
  from incr_Inr [OF i] obtain u where u: "wc (fst first) = Some u" "wc' = wc(fst first \<mapsto> u + 1)"
    by auto
  have mem: "fst first \<in> set (map fst (take 3 (first # rest)))" by simp
  show ?thesis
    unfolding counts_ok_def
  proof (intro allI impI)
    fix n w assume w: "wc' n = Some w"
    show "\<exists>p. pc' n = Some p \<and> 0 \<le> w \<and> w \<le> p"
    proof (cases "n = fst first")
      case True
      with u w have w1: "w = u + 1" by simp
      from assms(2) u obtain p where p: "pc (fst first) = Some p" "0 \<le> u" "u \<le> p"
        by (auto simp: counts_ok_def)
      from incr_all_mono [OF a p(1)] mem obtain p' where "pc' (fst first) = Some p'" "p + 1 \<le> p'"
        by auto
      with True w1 p show ?thesis by simp
    next
      case False
      with u w have "wc n = Some w" by simp
      with assms(2) obtain p where p: "pc n = Some p" "0 \<le> w" "w \<le> p"
        by (auto simp: counts_ok_def)
      from incr_all_mono [OF a p(1)] obtain p' where "pc' n = Some p'" "p \<le> p'" by auto
      with p show ?thesis by simp
    qed
  qed
qed

lemma trial_ok:
  assumes "trial cars track acc g = Inr (acc', g')"
    "counts_ok (winner_counts acc) (podium_counts acc)"
  shows "counts_ok (winner_counts acc') (podium_counts acc')"
proof -
  from assms(1) obtain res wc pc where
    wp: "(if filter (\<lambda>(n, d). status d = Finished) res \<noteq> []
                 then win_podium (filter (\<lambda>(n, d). status d = Finished) res)
                        (winner_counts acc) (podium_counts acc)
                 else Inr (winner_counts acc, podium_counts acc)) = Inr (wc, pc)"
    and acc': "winner_counts acc' = wc" "podium_counts acc' = pc"
    by (auto simp: trial_def split: sum.splits prod.splits)
  show ?thesis
  proof (cases "filter (\<lambda>(n, d). status d = Finished) res \<noteq> []")
    case True
    with wp win_podium_ok assms(2) acc' show ?thesis by auto
  next
    case False
    with wp assms(2) acc' show ?thesis by auto
  qed
qed

lemma mc_loop_ok:
  assumes "mc_loop cars track i n_iter acc g = Inr (acc', g')"
    "counts_ok (winner_counts acc) (podium_counts acc)"
  shows "counts_ok (winner_counts acc') (podium_counts acc')"
  using assms
proof (induction cars track i n_iter acc g rule: mc_loop.induct)
  case (1 cars track i n_iter acc g)
  show ?case
  proof (cases "n_iter < i")
    case True
    with 1(2,3) show ?thesis by (simp add: mc_loop.simps)
  next
    case False
    with 1(2) obtain acc1 g1 where t: "trial cars track acc g = Inr (acc1, g1)"
      and r: "mc_loop cars track (i + 1) n_iter acc1 g1 = Inr (acc', g')"
      by (subst (asm) mc_loop.simps) (auto split: sum.splits)
    from 1(1) [OF False t refl r] trial_ok [OF t 1(3)] show ?thesis by simp
  qed
qed

lemma init_accs_ok: "counts_ok (winner_counts (init_accs cars)) (podium_counts (init_accs cars))"
  by (auto simp: counts_ok_def init_accs_def dest!: map_of_SomeD)

lemma incr_all_keys: "incr_all m ks = Inr m' \<Longrightarrow> m n = Some v \<Longrightarrow> \<exists>v'. m' n = Some v'"
  using incr_all_mono by blast

lemma trial_keys:
  assumes "trial cars track acc g = Inr (acc', g')" "winner_counts acc n = Some w"
  shows "\<exists>w'. winner_counts acc' n = Some w'"
proof -
  from assms(1) obtain res wc pc where
    wp: "(if filter (\<lambda>(n, d). status d = Finished) res \<noteq> []
                 then win_podium (filter (\<lambda>(n, d). status d = Finished) res)
                        (winner_counts acc) (podium_counts acc)
                 else Inr (winner_counts acc, podium_counts acc)) = Inr (wc, pc)"
    and acc': "winner_counts acc' = wc"
    by (auto simp: trial_def split: sum.splits prod.splits)
  show ?thesis
  proof (cases "filter (\<lambda>(n, d). status d = Finished) res \<noteq> []")
    case True
    with wp obtain k where "incr (winner_counts acc) k = Inr wc"
      by (auto simp: win_podium_def split: list.splits sum.splits)
    from incr_Inr [OF this] assms(2) acc' show ?thesis by auto
  next
    case False
    with wp assms(2) acc' show ?thesis by auto
  qed
qed

lemma mc_loop_keys:
  assumes "mc_loop cars track i n_iter acc g = Inr (acc', g')" "winner_counts acc n = Some w"
  shows "\<exists>w'. winner_counts acc' n = Some w'"
  using assms
proof (induction cars track i n_iter acc g arbitrary: w rule: mc_loop.induct)
  case (1 cars track i n_iter acc g)
  show ?case
  proof (cases "n_iter < i")
    case True
    with 1(2,3) show ?thesis by (simp add: mc_loop.simps)
  next
    case False
    with 1(2) obtain acc1 g1 where t: "trial cars track acc g = Inr (acc1, g1)"
      and r: "mc_loop cars track (i + 1) n_iter acc1 g1 = Inr (acc', g')"
      by (subst (asm) mc_loop.simps) (auto split: sum.splits)
    from trial_keys [OF t 1(3)] obtain w1 where "winner_counts acc1 n = Some w1" by auto
    from 1(1) [OF False t refl r this] show ?thesis by simp
  qed
qed

text \<open>
  C10. After the trials of a run, however many (\<open>n_iter\<close> is arbitrary), every car has a
  win count and a podium count, the win count is not negative and the podium count is at
  least the win count: the winner of a trial is the first of the at most three entries
  whose podium count the trial increments.
\<close>

theorem podium_at_least_win:
  assumes "mc_loop cars track 1 n_iter (init_accs cars) g = Inr (acc, g')" and "c \<in> set cars"
  shows "\<exists>w p. winner_counts acc (name c) = Some w \<and> podium_counts acc (name c) = Some p \<and>
           0 \<le> w \<and> w \<le> p"
proof -
  have "winner_counts (init_accs cars) (name c) = Some 0"
    using assms(2) by (induction cars) (auto simp: init_accs_def)
  from mc_loop_keys [OF assms(1) this] obtain w where w: "winner_counts acc (name c) = Some w"
    by auto
  from mc_loop_ok [OF assms(1) init_accs_ok] w show ?thesis by (auto simp: counts_ok_def)
qed

theorem podium_at_least_win_witness:
  "\<exists>acc g'. mc_loop two_cars (circuit 100 2) 1 2 (init_accs two_cars) (sconst d_half)
       = Inr (acc, g') \<and>
     winner_counts acc ''A'' = Some 2 \<and> podium_counts acc ''A'' = Some 2 \<and>
     winner_counts acc ''B'' = Some 0 \<and> podium_counts acc ''B'' = Some 2 \<and>
     (\<exists>w p. winner_counts acc (name (plain_car ''A'' 100 0)) = Some w \<and>
        podium_counts acc (name (plain_car ''A'' 100 0)) = Some p \<and> 0 \<le> w \<and> w \<le> p)"
proof -
  have "\<exists>acc g'. mc_loop two_cars (circuit 100 2) 1 2 (init_accs two_cars) (sconst d_half)
       = Inr (acc, g') \<and>
     winner_counts acc ''A'' = Some 2 \<and> podium_counts acc ''A'' = Some 2 \<and>
     winner_counts acc ''B'' = Some 0 \<and> podium_counts acc ''B'' = Some 2"
    by (simp add: mc_loop.simps trial_def RaceSimulator_run_def car_result_def win_podium_def
        incr_def time_key_def init_accs_def lap_loop.simps lap_body_def rand_def normal_def
        truediv_def clamp_speed_def tyre_penalty_def laps_since_pit_def lap_crash_prob_def
        init_state_def two_cars_def plain_car_def circuit_def d_half_def)
  then obtain acc g' where
    e: "mc_loop two_cars (circuit 100 2) 1 2 (init_accs two_cars) (sconst d_half) = Inr (acc, g')"
    and v: "winner_counts acc ''A'' = Some 2" "podium_counts acc ''A'' = Some 2"
      "winner_counts acc ''B'' = Some 0" "podium_counts acc ''B'' = Some 2"
    by blast
  have m: "plain_car ''A'' 100 0 \<in> set two_cars" by (simp add: two_cars_def)
  from podium_at_least_win [OF e m] e v show ?thesis by blast
qed

subsection \<open>Degenerate runs: no cars, no trials\<close>

lemma trial_no_cars: "trial [] track acc g = Inr (acc, g)"
  by (simp add: trial_def RaceSimulator_run_def)

lemma mc_loop_no_cars: "mc_loop [] track i n_iter acc g = Inr (acc, g)"
proof (induction "[] :: Car list" track i n_iter acc g rule: mc_loop.induct)
  case (1 track i n_iter acc g)
  show ?case
  proof (cases "n_iter < i")
    case True
    then show ?thesis by (simp add: mc_loop.simps)
  next
    case False
    with 1 [OF False trial_no_cars refl] show ?thesis
      by (subst mc_loop.simps) (simp add: trial_no_cars)
  qed
qed

lemma summary_rows_no_cars: "summary_rows [] track n_iter g = Inr ([], g)"
  by (simp add: summary_rows_def mc_loop_no_cars)

lemma mc_loop_zero_trials: "mc_loop cars track 1 0 acc g = Inr (acc, g)"
  by (simp add: mc_loop.simps)

lemma init_accs_name:
  "c \<in> set cars \<Longrightarrow>
     winner_counts (init_accs cars) (name c) = Some 0 \<and>
     podium_counts (init_accs cars) (name c) = Some 0 \<and>
     finish_times (init_accs cars) (name c) = Some [] \<and>
     dnfs (init_accs cars) (name c) = Some 0"
  by (induction cars) (auto simp: init_accs_def)

lemma first_row_zero_trials: "summary_row (init_accs (c # cs)) 0 c = Inl ZeroDivisionError"
  using init_accs_name [of c "c # cs"] by (simp add: summary_row_def pct_def truediv_def)

text \<open>
  C1. With \<open>n_iter = 0\<close> the trial loop does nothing: the counters are the initial ones
  and the generator is untouched. For a non-empty list of cars the very first row of the
  summary raises ZeroDivisionError (100 * 0 / 0), so no row is ever appended; for the
  empty list there is nothing to divide and \<^verbatim>\<open>sort_values\<close> raises KeyError on the
  frame without columns. In both cases the call raises and returns no table.
\<close>

theorem zero_trials_raises:
  "mc_loop cars track 1 0 (init_accs cars) g = Inr (init_accs cars, g) \<and>
   summary_row (init_accs (c # cs)) 0 c = Inl ZeroDivisionError \<and>
   build_summary (init_accs (c # cs)) 0 (c # cs) [] = Inl ZeroDivisionError \<and>
   summary_rows cars track 0 g = (if cars = [] then Inr ([], g) else Inl ZeroDivisionError) \<and>
   MonteCarloRace_run argsort_desc cars track 0 g
     = Inl (if cars = [] then KeyError else ZeroDivisionError)"
proof (cases cars)
  case Nil
  then show ?thesis
    by (simp add: mc_loop_zero_trials first_row_zero_trials summary_rows_no_cars
        MonteCarloRace_run_def sort_values_win_def DataFrame_of_def)
next
  case (Cons a as)
  then show ?thesis
    by (simp add: mc_loop_zero_trials first_row_zero_trials summary_rows_def
        MonteCarloRace_run_def)
qed

theorem zero_trials_raises_witness:
  "mc_loop two_cars (circuit 100 2) 1 0 (init_accs two_cars) (sconst d_half)
     = Inr (init_accs two_cars, sconst d_half) \<and>
   summary_rows two_cars (circuit 100 2) 0 (sconst d_half) = Inl ZeroDivisionError \<and>
   MonteCarloRace_run (\<lambda>ws. []) two_cars (circuit 100 2) 0 (sconst d_half)
     = Inl ZeroDivisionError"
  using zero_trials_raises [of two_cars "circuit 100 2" "sconst d_half" "plain_car ''A'' 100 0"
      "[plain_car ''B'' 50 0]" "\<lambda>ws. []"]
  by (simp add: two_cars_def)

text \<open>
  C2. With an empty list of cars every trial is empty and the summary is the empty list,
  but the call does not return the empty table: the frame built from the empty list has
  no column "Win %" and \<^verbatim>\<open>sort_values\<close> raises KeyError, whatever \<open>n_iter\<close> is.
\<close>

theorem no_cars_raises_KeyError:
  "MonteCarloRace_run argsort_desc [] track n_iter g = Inl KeyError"
  by (simp add: MonteCarloRace_run_def summary_rows_no_cars sort_values_win_def DataFrame_of_def)

theorem no_cars_raises_KeyError_witness:
  "MonteCarloRace_run (\<lambda>ws. []) [] (circuit 100 2) 1 (sconst d_half) = Inl KeyError"
  by (rule no_cars_raises_KeyError)

subsection \<open>Rounding to double precision\<close>

lemma round_half_even_of_int [simp]: "round_half_even (of_int k) = k"
  by (simp add: round_half_even_def)

lemma round_half_even_numeral [simp]: "round_half_even (numeral n) = numeral n"
  using round_half_even_of_int [of "numeral n"] by simp

lemma round_half_even_0 [simp]: "round_half_even 0 = 0"
  using round_half_even_of_int [of 0] by simp

































subsection \<open>The rounded race and the exact one\<close>

lemma lap_body_fl_exact: "lap_body_fl (\<lambda>x. x) track car lap st = lap_body track car lap st"
  by (simp add: lap_body_fl_def lap_body_def normal_fl_def normal_def truediv_fl_def truediv_def
      pit_stop_time_fl_def pit_stop_time_def lap_crash_prob_fl_def lap_crash_prob_def
      tyre_penalty_fl_def tyre_penalty_def clamp_speed_fl_def clamp_speed_def
      cong: sum.case_cong prod.case_cong if_cong)

lemma lap_loop_fl_exact: "lap_loop_fl (\<lambda>x. x) track car lap st = lap_loop track car lap st"
proof (induction track car lap st rule: lap_loop.induct)
  case (1 track car lap st)
  show ?case
  proof (cases "n_laps track < lap")
    case True
    then show ?thesis by (simp add: lap_loop.simps lap_loop_fl.simps)
  next
    case False
    show ?thesis
    proof (cases "lap_body track car lap st")
      case (Inl e)
      with False show ?thesis
        by (simp add: lap_loop.simps [of track car lap] lap_loop_fl.simps [of _ track car lap]
            lap_body_fl_exact)
    next
      case (Inr r)
      with False 1 [OF False Inr] show ?thesis
        by (cases r)
          (simp_all add: lap_loop.simps [of track car lap] lap_loop_fl.simps [of _ track car lap]
            lap_body_fl_exact)
    qed
  qed
qed

lemma car_result_fl_exact: "car_result_fl (\<lambda>x. x) track car g = car_result track car g"
  by (simp add: car_result_fl_def car_result_def lap_loop_fl_exact)

lemma race_loop_fl_exact:
  "race_loop_fl (\<lambda>x. x) track cars results g = race_loop track cars results g"
  by (induction cars arbitrary: results g) (simp_all add: car_result_fl_exact split: sum.splits)

lemma RaceSimulator_run_fl_exact:
  "RaceSimulator_run_fl (\<lambda>x. x) cars track g = RaceSimulator_run cars track g"
  by (simp add: RaceSimulator_run_fl_def RaceSimulator_run_def race_loop_fl_exact)

lemma trial_fl_exact: "trial_fl (\<lambda>x. x) cars track acc g = trial cars track acc g"
  by (simp add: trial_fl_def trial_def RaceSimulator_run_fl_exact)

subsection \<open>The deterministic race of two steady cars\<close>















subsection \<open>Crash probability against DNF and win percentages\<close>

text \<open>
  C5 does not hold for two trials and more: a car that crashes earlier takes fewer draws
  from the shared generator, so every later draw of the run moves. Below, one car runs
  two trials of two laps on the same stream. With \<open>crash_prob = 1/5\<close> it crashes on lap 2
  of both trials (DNF 100 %, Win 0 %); with \<open>crash_prob = 1/2\<close> it crashes on lap 1 of
  the first trial and then finishes the second (DNF 50 %, Win 50 %).
\<close>

theorem more_risk_fewer_DNFs:
  "summary_rows [plain_car ''A'' 100 (1 / 5)] (circuit 100 2) 2 shifting_stream
     = Inr ([\<lparr>car_col = ''A'', win_pct = 0, podium_pct = 0, dnf_pct = 100, avg_time = None\<rparr>],
            sconst d_09) \<and>
   summary_rows [plain_car ''A'' 100 (1 / 2)] (circuit 100 2) 2 shifting_stream
     = Inr ([\<lparr>car_col = ''A'', win_pct = 50, podium_pct = 50, dnf_pct = 50,
              avg_time = Some 2\<rparr>], d_low ## sconst d_09) \<and>
   crash_prob (plain_car ''A'' 100 (1 / 5)) < crash_prob (plain_car ''A'' 100 (1 / 2))"
  by (simp add: summary_rows_def summary_row_def pct_def np_mean_def mc_loop.simps trial_def
      RaceSimulator_run_def car_result_def win_podium_def incr_def time_key_def init_accs_def
      lap_loop.simps lap_body_def rand_def normal_def truediv_def clamp_speed_def
      tyre_penalty_def laps_since_pit_def lap_crash_prob_def init_state_def plain_car_def
      circuit_def d_03_def d_09_def d_low_def shifting_stream_def)

text \<open>
  A car whose race is Finished under the higher crash probability has the very same race
  under the lower one: every crash draw that is not below the higher threshold is not
  below the lower one, and nothing else in a lap reads \<open>crash_prob\<close>.
\<close>

lemma lap_body_less_risk:
  assumes "c' = c\<lparr>crash_prob := p'\<rparr>" "crash_prob c \<le> p'"
    "lap_body track c' lap st = Inr (Completed st1)"
  shows "lap_body track c lap st = Inr (Completed st1)"
  using assms
  by (auto simp: lap_body_def rand_def lap_crash_prob_def tyre_penalty_def pit_stop_time_def
      split: if_splits sum.splits prod.splits)

lemma lap_loop_less_risk:
  assumes "c' = c\<lparr>crash_prob := p'\<rparr>" "crash_prob c \<le> p'"
    "lap_loop track c' lap st = Inr (Finished, st')"
  shows "lap_loop track c lap st = Inr (Finished, st')"
  using assms
proof (induction track c' lap st rule: lap_loop.induct)
  case (1 track c' lap st)
  show ?case
  proof (cases "n_laps track < lap")
    case True
    with 1(4) show ?thesis by (simp add: lap_loop_past_end)
  next
    case False
    then have le: "lap \<le> n_laps track" by simp
    have "(case lap_body track c' lap st of
        Inl e \<Rightarrow> Inl e
      | Inr (Crashed st') \<Rightarrow> Inr (DNF lap, st')
      | Inr (Completed st') \<Rightarrow> lap_loop track c' (lap + 1) st') = Inr (Finished, st')"
      using 1(4) le lap_loop_step [of lap track c' st] by simp
    then obtain st1 where b: "lap_body track c' lap st = Inr (Completed st1)"
      and r: "lap_loop track c' (lap + 1) st1 = Inr (Finished, st')"
      by (cases "lap_body track c' lap st") (auto split: lap_result.splits)
    from 1(1) [OF False b refl 1(2,3) r] lap_body_less_risk [OF 1(2,3) b] le
    show ?thesis by (simp add: lap_loop_step)
  qed
qed

lemma car_result_less_risk:
  assumes "c' = c\<lparr>crash_prob := p'\<rparr>" "crash_prob c \<le> p'"
    "car_result track c' g = Inr (out, g2)" "status out = Finished"
  shows "car_result track c g = Inr (out, g2)"
proof -
  from assms(3,4) obtain st where "lap_loop track c' 1 (init_state g) = Inr (Finished, st)"
    and o: "out = \<lparr>time = Some (total_time st), status = Finished, laps = n_laps track\<rparr>"
      "g2 = gen st"
    by (auto simp: car_result_def split: sum.splits)
  from lap_loop_less_risk [OF assms(1,2) this(1)] o show ?thesis
    by (simp add: car_result_def)
qed

lemma race_loop_distinct:
  "race_loop track cars results g = Inr (res, g') \<Longrightarrow> distinct (map fst results) \<Longrightarrow>
     distinct (map fst res)"
proof (induction cars arbitrary: results g)
  case Nil
  then show ?case by simp
next
  case (Cons c cars)
  from Cons.prems(1) obtain out g1 where
    r: "race_loop track cars (AList.update (name c) out results) g1 = Inr (res, g')"
    by (auto split: sum.splits)
  from Cons.IH [OF r] Cons.prems(2) show ?case by (simp add: distinct_update)
qed

lemma tally_dnfs:
  assumes "tally res ft dn = Inr (ft', dn')" "distinct (map fst res)" "dn n = Some v"
  shows "dn' n = Some (if \<exists>d. map_of res n = Some d \<and> status d \<noteq> Finished then v + 1 else v)"
  using assms
proof (induction res ft dn arbitrary: v rule: tally.induct)
  case (1 ft dn)
  then show ?case by simp
next
  case (2 k d res ft dn)
  from "2.prems"(2) have dist: "distinct (map fst res)" and k: "k \<notin> fst ` set res" by auto
  then have none: "map_of res k = None" by (simp add: map_of_eq_None_iff)
  show ?case
  proof (cases "status d = Finished")
    case True
    with "2.prems"(1) obtain ts where "ft k = Some ts"
      and r: "tally res (ft(k \<mapsto> ts @ [time d])) dn = Inr (ft', dn')"
      by (auto split: option.splits)
    from "2.IH"(1) [OF True this dist "2.prems"(3)] True none show ?thesis by auto
  next
    case False
    with "2.prems"(1) obtain dn1 where i: "incr dn k = Inr dn1"
      and r: "tally res ft dn1 = Inr (ft', dn')"
      by (auto split: sum.splits)
    from incr_Inr [OF i] obtain u where u: "dn k = Some u" "dn1 = dn(k \<mapsto> u + 1)" by auto
    show ?thesis
    proof (cases "n = k")
      case True
      with u "2.prems"(3) have "dn1 n = Some (v + 1)" by simp
      from "2.IH"(2) [OF False i r dist this] True none False show ?thesis by simp
    next
      case neq: False
      with u "2.prems"(3) have "dn1 n = Some v" by simp
      from "2.IH"(2) [OF False i r dist this] neq show ?thesis by simp
    qed
  qed
qed

lemma win_podium_other:
  assumes "win_podium finished wc pc = Inr (wc', pc')" "n \<notin> fst ` set finished"
  shows "wc' n = wc n"
proof -
  from assms(1) obtain first rest where o: "sort_key time_key finished = first # rest"
    and i: "incr wc (fst first) = Inr wc'"
    by (auto simp: win_podium_def split: list.splits sum.splits)
  have "first \<in> set (sort_key time_key finished)" using o by simp
  then have "fst first \<in> fst ` set finished" by simp
  with assms(2) have "fst first \<noteq> n" by auto
  with incr_Inr [OF i] show ?thesis by auto
qed

text \<open>What one trial does, read off its result.\<close>

lemma trial_Inr:
  assumes "trial cars track acc g = Inr (acc', g')"
  shows "\<exists>res. RaceSimulator_run cars track g = Inr (res, g') \<and>
     (if filter (\<lambda>(n, d). status d = Finished) res \<noteq> []
      then win_podium (filter (\<lambda>(n, d). status d = Finished) res)
             (winner_counts acc) (podium_counts acc)
      else Inr (winner_counts acc, podium_counts acc))
       = Inr (winner_counts acc', podium_counts acc') \<and>
     tally res (finish_times acc) (dnfs acc) = Inr (finish_times acc', dnfs acc')"
  using assms by (auto simp: trial_def split: sum.splits prod.splits)

lemma run_distinct:
  "RaceSimulator_run cars track g = Inr (res, g') \<Longrightarrow> distinct (map fst res)"
  using race_loop_distinct [of track cars "[]" g res g'] by (simp add: RaceSimulator_run_def)

lemma trial_dnfs:
  assumes "trial cars track acc g = Inr (acc', g')" "RaceSimulator_run cars track g = Inr (res, g')"
    "dnfs acc n = Some v"
  shows "dnfs acc' n =
     Some (if \<exists>d. map_of res n = Some d \<and> status d \<noteq> Finished then v + 1 else v)"
proof -
  from trial_Inr [OF assms(1)] assms(2)
  have t: "tally res (finish_times acc) (dnfs acc) = Inr (finish_times acc', dnfs acc')" by auto
  from tally_dnfs [OF t run_distinct [OF assms(2)] assms(3)] show ?thesis .
qed

lemma trial_no_win_for_DNF:
  assumes "trial cars track acc g = Inr (acc', g')" "RaceSimulator_run cars track g = Inr (res, g')"
    "map_of res n = Some d" "status d \<noteq> Finished"
  shows "winner_counts acc' n = winner_counts acc n"
proof -
  from trial_Inr [OF assms(1)] assms(2)
  have w: "(if filter (\<lambda>(n, d). status d = Finished) res \<noteq> []
      then win_podium (filter (\<lambda>(n, d). status d = Finished) res)
             (winner_counts acc) (podium_counts acc)
      else Inr (winner_counts acc, podium_counts acc))
       = Inr (winner_counts acc', podium_counts acc')" by auto
  have "n \<notin> fst ` set (filter (\<lambda>(n, d). status d = Finished) res)"
  proof
    assume "n \<in> fst ` set (filter (\<lambda>(n, d). status d = Finished) res)"
    then obtain e where "(n, e) \<in> set res" "status e = Finished" by auto
    with run_distinct [OF assms(2)] have "map_of res n = Some e" by simp
    with assms(3,4) \<open>status e = Finished\<close> show False by simp
  qed
  with w win_podium_other show ?thesis by (auto split: if_splits)
qed

lemma mc_loop_single:
  "mc_loop cars track 1 1 acc g =
     (case trial cars track acc g of Inl e \<Rightarrow> Inl e | Inr x \<Rightarrow> Inr x)"
  by (simp add: mc_loop.simps split: sum.splits)

lemma summary_rows_one:
  assumes "summary_rows cars track 1 g = Inr (rs, g1)"
  shows "\<exists>acc. trial cars track (init_accs cars) g = Inr (acc, g1) \<and>
     build_summary acc 1 cars [] = Inr rs"
  using assms by (auto simp: summary_rows_def mc_loop_single split: sum.splits)

lemma build_summary_prefix:
  "build_summary acc n cars summary = Inr rs \<Longrightarrow> \<exists>rest. rs = summary @ rest"
proof (induction cars arbitrary: summary)
  case Nil
  then show ?case by simp
next
  case (Cons c cars)
  from Cons.prems obtain r where "build_summary acc n cars (summary @ [r]) = Inr rs"
    by (auto split: sum.splits)
  from Cons.IH [OF this] show ?case by auto
qed

lemma build_summary_nth:
  "build_summary acc n (pre @ c # post) summary = Inr rs \<Longrightarrow>
     \<exists>r. summary_row acc n c = Inr r \<and> rs ! (length summary + length pre) = r"
proof (induction pre arbitrary: summary)
  case Nil
  then obtain r where r: "summary_row acc n c = Inr r"
    and b: "build_summary acc n post (summary @ [r]) = Inr rs"
    by (auto split: sum.splits)
  from build_summary_prefix [OF b] obtain rest where "rs = (summary @ [r]) @ rest" by blast
  then have "rs ! length summary = r" by simp
  with r show ?case by simp
next
  case (Cons p pre)
  then obtain rp where
    b: "build_summary acc n (pre @ c # post) (summary @ [rp]) = Inr rs"
    by (auto split: sum.splits)
  from Cons.IH [OF b] show ?case by simp
qed

lemma summary_row_one_trial:
  assumes "summary_row acc 1 c = Inr r" "winner_counts acc (name c) = Some w"
    "dnfs acc (name c) = Some d"
  shows "car_col r = name c \<and> win_pct r = 100 * of_int w \<and> dnf_pct r = 100 * of_int d"
  using assms
  by (auto simp: summary_row_def pct_def truediv_def split: option.splits sum.splits)

lemma summary_row_car_col: "summary_row acc n c = Inr r \<Longrightarrow> car_col r = name c"
  by (auto simp: summary_row_def split: option.splits sum.splits)

lemma summary_row_name: "name c' = name c \<Longrightarrow> summary_row acc n c' = summary_row acc n c"
  by (simp add: summary_row_def cong: option.case_cong sum.case_cong)

lemma trial_same_race:
  "RaceSimulator_run cars' track g = RaceSimulator_run cars track g \<Longrightarrow>
     trial cars' track acc g = trial cars track acc g"
  by (simp add: trial_def)

lemma init_accs_same_names:
  "name c' = name c \<Longrightarrow> init_accs (pre @ c' # post) = init_accs (pre @ c # post)"
  by (simp add: init_accs_def)

text \<open>
  C5, amended to a run of one trial: raise the \<open>crash_prob\<close> of one car \<open>c\<close> whose name
  no later car bears, and leave everything else as it is. If both runs return, then in
  the summary the row of \<open>c\<close> (the row at its position in the list) has a DNF % that is
  not smaller and a Win % that is not larger than before.
\<close>

theorem crash_prob_monotone_single_trial:
  assumes c': "c' = c\<lparr>crash_prob := p'\<rparr>" and le: "crash_prob c \<le> p'"
    and post: "name c \<notin> name ` set post"
    and run: "summary_rows (pre @ c # post) track 1 g = Inr (rs, g1)"
    and run': "summary_rows (pre @ c' # post) track 1 g = Inr (rs', g1')"
  shows "car_col (rs ! length pre) = name c \<and> car_col (rs' ! length pre) = name c \<and>
     dnf_pct (rs ! length pre) \<le> dnf_pct (rs' ! length pre) \<and>
     win_pct (rs' ! length pre) \<le> win_pct (rs ! length pre)"
proof -
  let ?cars = "pre @ c # post" and ?cars' = "pre @ c' # post"
  have nm: "name c' = name c" using c' by simp
  have ia: "init_accs ?cars' = init_accs ?cars" using init_accs_same_names [OF nm] .
  from summary_rows_one [OF run] obtain acc where
    t: "trial ?cars track (init_accs ?cars) g = Inr (acc, g1)"
    and b: "build_summary acc 1 ?cars [] = Inr rs" by blast
  from summary_rows_one [OF run'] ia obtain acc' where
    t': "trial ?cars' track (init_accs ?cars) g = Inr (acc', g1')"
    and b': "build_summary acc' 1 ?cars' [] = Inr rs'" by auto
  from build_summary_nth [OF b] obtain r where
    r: "summary_row acc 1 c = Inr r" "rs ! length pre = r" by auto
  from build_summary_nth [OF b'] summary_row_name [OF nm, of acc' 1] obtain r' where
    r': "summary_row acc' 1 c = Inr r'" "rs' ! length pre = r'"
    by auto
  from trial_Inr [OF t] obtain res where
    rr: "RaceSimulator_run ?cars track g = Inr (res, g1)" by blast
  from trial_Inr [OF t'] obtain res' where
    rr': "RaceSimulator_run ?cars' track g = Inr (res', g1')" by blast
  from race_entry [OF rr'] post nm obtain rp gc out' g2 where
    p: "RaceSimulator_run pre track g = Inr (rp, gc)"
    and o: "car_result track c' gc = Inr (out', g2)"
    and q: "race_loop track post (AList.update (name c) out' rp) g2 = Inr (res', g1')"
    and m: "map_of res' (name c) = Some out'"
    by auto
  have z: "winner_counts (init_accs ?cars) (name c) = Some 0"
    "dnfs (init_accs ?cars) (name c) = Some 0"
    using init_accs_name [of c ?cars] by simp_all
  show ?thesis
  proof (cases "status out' = Finished")
    case True
    from car_result_less_risk [OF c' le o True] p q
    have "RaceSimulator_run ?cars track g = Inr (res', g1')"
      by (simp add: RaceSimulator_run_def race_loop_append)
    with rr' have "RaceSimulator_run ?cars' track g = RaceSimulator_run ?cars track g" by simp
    from trial_same_race [OF this] t t' have "acc' = acc" by simp
    with r r' have "r' = r" by simp
    with r r' summary_row_car_col [OF r(1)] show ?thesis by simp
  next
    case False
    from trial_dnfs [OF t' rr' z(2)] m False have d': "dnfs acc' (name c) = Some 1" by simp
    from trial_no_win_for_DNF [OF t' rr' m False] z(1)
    have w': "winner_counts acc' (name c) = Some 0" by simp
    from trial_keys [OF t z(1)] obtain w where w: "winner_counts acc (name c) = Some w" by blast
    from trial_ok [OF t init_accs_ok] w have w0: "0 \<le> w" by (auto simp: counts_ok_def)
    from trial_dnfs [OF t rr z(2)] obtain d where d: "dnfs acc (name c) = Some d" "d \<le> 1"
      by (auto split: if_splits)
    from summary_row_one_trial [OF r(1) w d(1)] summary_row_one_trial [OF r'(1) w' d']
      r(2) r'(2) w0 d(2)
    show ?thesis by simp
  qed
qed

theorem crash_prob_monotone_single_trial_witness:
  "\<exists>rs rs' g1 g1'.
     summary_rows ([] @ plain_car ''A'' 100 (1 / 5) # [plain_car ''B'' 50 0]) (circuit 100 1) 1
       (d_03 ## sconst d_09) = Inr (rs, g1) \<and>
     summary_rows ([] @ (plain_car ''A'' 100 (1 / 5))\<lparr>crash_prob := 1 / 2\<rparr>
         # [plain_car ''B'' 50 0]) (circuit 100 1) 1 (d_03 ## sconst d_09) = Inr (rs', g1') \<and>
     crash_prob (plain_car ''A'' 100 (1 / 5)) \<le> 1 / 2 \<and>
     rs ! 0 = \<lparr>car_col = ''A'', win_pct = 100, podium_pct = 100, dnf_pct = 0,
               avg_time = Some 1\<rparr> \<and>
     rs' ! 0 = \<lparr>car_col = ''A'', win_pct = 0, podium_pct = 0, dnf_pct = 100,
                avg_time = None\<rparr> \<and>
     dnf_pct (rs ! length ([] :: Car list)) \<le> dnf_pct (rs' ! length ([] :: Car list)) \<and>
     win_pct (rs' ! length ([] :: Car list)) \<le> win_pct (rs ! length ([] :: Car list))"
proof -
  have a: "summary_rows ([] @ plain_car ''A'' 100 (1 / 5) # [plain_car ''B'' 50 0]) (circuit 100 1) 1
       (d_03 ## sconst d_09)
     = Inr ([\<lparr>car_col = ''A'', win_pct = 100, podium_pct = 100, dnf_pct = 0,
              avg_time = Some 1\<rparr>,
             \<lparr>car_col = ''B'', win_pct = 0, podium_pct = 100, dnf_pct = 0,
              avg_time = Some 2\<rparr>], sconst d_09)"
    by (simp add: summary_rows_def summary_row_def pct_def np_mean_def mc_loop.simps trial_def
      RaceSimulator_run_def car_result_def win_podium_def incr_def time_key_def init_accs_def
      lap_loop.simps lap_body_def rand_def normal_def truediv_def clamp_speed_def
      tyre_penalty_def laps_since_pit_def lap_crash_prob_def init_state_def plain_car_def
      circuit_def d_03_def d_09_def)
  have b: "summary_rows ([] @ (plain_car ''A'' 100 (1 / 5))\<lparr>crash_prob := 1 / 2\<rparr>
         # [plain_car ''B'' 50 0]) (circuit 100 1) 1 (d_03 ## sconst d_09)
     = Inr ([\<lparr>car_col = ''A'', win_pct = 0, podium_pct = 0, dnf_pct = 100,
              avg_time = None\<rparr>,
             \<lparr>car_col = ''B'', win_pct = 100, podium_pct = 100, dnf_pct = 0,
              avg_time = Some 2\<rparr>], sconst d_09)"
    by (simp add: summary_rows_def summary_row_def pct_def np_mean_def mc_loop.simps trial_def
      RaceSimulator_run_def car_result_def win_podium_def incr_def time_key_def init_accs_def
      lap_loop.simps lap_body_def rand_def normal_def truediv_def clamp_speed_def
      tyre_penalty_def laps_since_pit_def lap_crash_prob_def init_state_def plain_car_def
      circuit_def d_03_def d_09_def)
  have l: "crash_prob (plain_car ''A'' 100 (1 / 5)) \<le> 1 / 2" by (simp add: plain_car_def)
  have n: "name (plain_car ''A'' 100 (1 / 5)) \<notin> name ` set [plain_car ''B'' 50 0]"
    by (simp add: plain_car_def)
  from crash_prob_monotone_single_trial [OF refl l n a b] a b l show ?thesis by simp
qed

end
